theory Spec2Isabelle
  imports Main "HOL-Library.Word"
begin

unbundle bit_operations_syntax

section \<open>Data model of version.go\<close>

type_synonym byte = "8 word"

text \<open>
  Go's \<open>error\<close> interface values that the version query can return: the two errors of a
  context (\<open>context.Canceled\<close>, \<open>context.DeadlineExceeded\<close>), the two errors of
  \<open>binary.Read\<close> on a short input (\<open>io.EOF\<close>, \<open>io.ErrUnexpectedEOF\<close>), and any
  other error of the transport or of the frame decoder, identified by its message.
  \<open>None\<close> of type \<open>error option\<close> is Go's \<open>nil\<close> error.
\<close>

datatype error = Canceled | DeadlineExceeded | EOF | ErrUnexpectedEOF | OtherError string

record RawHardwareVersion =
  VendorID :: "32 word"
  ProductID :: "32 word"
  HardwareVersion :: "32 word"

record RawStateVersionPayload =
  Version :: RawHardwareVersion

record ParsedHardwareVersion =
  ProductName :: string
  Color :: bool
  Infrared :: bool
  MultiZone :: bool
  Chain :: bool
  MinKelvin :: "16 word"
  MaxKelvin :: "16 word"
  Raw :: RawHardwareVersion

text \<open>
  Modelled from the spec: the declaration of \<open>Response\<close> is not among the sources; the
  record has the four fields that \<open>GetHardwareVersion\<close> reads, with the widths the spec
  gives them (32-bit source, 8-bit sequence, 16-bit message type, payload bytes).
\<close>

record Response =
  Source :: "32 word"
  Sequence :: "8 word"
  Message :: "16 word"
  Payload :: "byte list"

text \<open>
  Modelled from the spec: the declaration of \<open>device\<close> is not among the sources; the
  record has the stored raw version (\<open>d.version\<close>) and the source identifier that
  \<open>d.Source()\<close> returns. A zero-valued Go struct has all fields 0.
\<close>

record device =
  source :: "32 word"
  version :: RawHardwareVersion

text \<open>\<open>tile.Coordinate\<close>, as the table of the animation program builds it.\<close>

record Coordinate =
  X :: int
  Y :: int

section \<open>The world around one call\<close>

text \<open>
  The places where \<open>GetHardwareVersion\<close> polls \<open>ctx.Done()\<close>: on entry, after a
  successful dial, and at the top of the \<open>i\<close>-th iteration of the read loop.
\<close>

datatype poll = AtEntry | AfterDial | LoopTop nat

text \<open>
  A \<open>context.Context\<close> as the call observes it: whether \<open>Done()\<close> is closed at each
  poll, and the error \<open>Err()\<close> then returns.
\<close>

record ctx =
  Done :: "poll \<Rightarrow> bool"
  Err :: error

text \<open>
  A \<open>net.Conn\<close> as the call observes it: the result of \<open>SetReadDeadline\<close> and of
  \<open>Read\<close> in the \<open>i\<close>-th iteration of the read loop (each iteration that goes on
  has made exactly one read). \<open>Read\<close> gives the bytes \<open>buf[:n]\<close> and the error.
\<close>

record conn =
  conn_id :: nat
  SetReadDeadline :: "nat \<Rightarrow> error option"
  Read :: "nat \<Rightarrow> byte list \<times> error option"

text \<open>What the call does to the outside, in order.\<close>

datatype event = EvDial | EvSend nat | EvSetReadDeadline nat | EvRead nat | EvClose nat

text \<open>
  The functions and constants of the package that \<open>GetHardwareVersion\<close> uses and that
  are not among the sources, taken as parameters: the outcome of \<open>d.Dial()\<close>, the
  outcome of \<open>d.Send(ctx, conn, NotTagged, 0, GetVersion, nil)\<close> (the sequence number
  or an error; it does not touch \<open>d.version\<close>), the frame decoder \<open>ParseResponse\<close>,
  \<open>CheckTimeoutError\<close> and the message type \<open>StateVersion\<close>.
\<close>

record lifxlan =
  Dial :: "error + conn"
  Send :: "ctx \<Rightarrow> conn \<Rightarrow> error + 8 word"
  ParseResponse :: "byte list \<Rightarrow> error + Response"
  CheckTimeoutError :: "error \<Rightarrow> bool"
  StateVersion :: "16 word"

type_synonym outcome = "error option \<times> device \<times> event list"

section \<open>The functions of version.go\<close>

definition EmptyHardwareVersion :: string where
  "EmptyHardwareVersion = ''(0, 0, 0)''"

definition ProductMapKey :: "32 word \<Rightarrow> 32 word \<Rightarrow> 64 word" where
  "ProductMapKey vendor product = push_bit 32 (ucast vendor) + ucast product"

definition raw_ProductMapKey :: "RawHardwareVersion \<Rightarrow> 64 word" where
  "raw_ProductMapKey raw = ProductMapKey (VendorID raw) (ProductID raw)"

text \<open>
  \<open>ProductMap\<close> is a table of the package that is not among the sources: it is a
  parameter. A nil \<open>*ParsedHardwareVersion\<close> is \<open>None\<close>.
\<close>

definition Parse ::
  "(64 word \<rightharpoonup> ParsedHardwareVersion) \<Rightarrow> RawHardwareVersion \<Rightarrow> ParsedHardwareVersion option" where
  "Parse ProductMap raw =
     (case ProductMap (raw_ProductMapKey raw) of
        None \<Rightarrow> None
      | Some parsed \<Rightarrow> Some (parsed\<lparr>Raw := raw\<rparr>))"

text \<open>\<open>%v\<close> of an unsigned integer: its decimal digits, no sign, no padding.\<close>

definition digit_char :: "nat \<Rightarrow> char" where
  "digit_char n = ''0123456789'' ! n"

function decimal :: "nat \<Rightarrow> string" where
  "decimal n = (if n < 10 then [digit_char n] else decimal (n div 10) @ [digit_char (n mod 10)])"
  by pat_completeness auto
termination
  by (relation "measure (\<lambda>n. n)") auto

declare decimal.simps [simp del]

definition String :: "(64 word \<rightharpoonup> ParsedHardwareVersion) \<Rightarrow> RawHardwareVersion \<Rightarrow> string" where
  "String ProductMap raw =
     (let sb = [];
          parsed = Parse ProductMap raw;
          sb = (case parsed of Some p \<Rightarrow> sb @ ProductName p | None \<Rightarrow> sb)
      in sb @ (''('' @ decimal (unat (VendorID raw)) @ '', '' @ decimal (unat (ProductID raw))
                 @ '', '' @ decimal (unat (HardwareVersion raw)) @ '')''))"

definition device_Source :: "device \<Rightarrow> 32 word" where
  "device_Source d = source d"

text \<open>
  \<open>return &d.version\<close>: a pointer is \<open>None\<close> when nil and \<open>Some v\<close> when it points
  to the value \<open>v\<close>.
\<close>

definition device_HardwareVersion :: "device \<Rightarrow> RawHardwareVersion option" where
  "device_HardwareVersion d = Some (version d)"

text \<open>
  \<open>binary.Read(r, binary.LittleEndian, &raw)\<close> on a reader over the payload: the
  target is 12 bytes wide, \<open>io.ReadFull\<close> gives \<open>io.EOF\<close> on no bytes and
  \<open>io.ErrUnexpectedEOF\<close> on fewer than 12, and the target is written only after the
  12 bytes are there; bytes past the twelfth are not read.
\<close>

definition le_uint32 :: "byte list \<Rightarrow> 32 word" where
  "le_uint32 b = ucast (b ! 0) OR push_bit 8 (ucast (b ! 1)) OR push_bit 16 (ucast (b ! 2))
                  OR push_bit 24 (ucast (b ! 3))"

definition binary_Read :: "byte list \<Rightarrow> error + RawStateVersionPayload" where
  "binary_Read payload =
     (if length payload = 0 then Inl EOF
      else if length payload < 12 then Inl ErrUnexpectedEOF
      else Inr \<lparr>Version = \<lparr>VendorID = le_uint32 (take 4 payload),
                              ProductID = le_uint32 (take 4 (drop 4 payload)),
                              HardwareVersion = le_uint32 (take 4 (drop 8 payload))\<rparr>\<rparr>)"

text \<open>
  The \<open>for\<close> loop of \<open>GetHardwareVersion\<close>, from its \<open>i\<close>-th iteration on, with the
  device and the events so far. The loop has no bound of its own: a run that never
  returns is \<open>None\<close>.
\<close>

partial_function (option) read_loop ::
  "lifxlan \<Rightarrow> ctx \<Rightarrow> conn \<Rightarrow> 8 word \<Rightarrow> nat \<Rightarrow> device \<Rightarrow> event list \<Rightarrow> outcome option" where
  "read_loop env c cn seq i d tr =
     (if Done c (LoopTop i) then Some (Some (Err c), d, tr)
      else case SetReadDeadline cn i of
        Some err \<Rightarrow> Some (Some err, d, tr @ [EvSetReadDeadline (conn_id cn)])
      | None \<Rightarrow>
          (let tr' = tr @ [EvSetReadDeadline (conn_id cn), EvRead (conn_id cn)] in
           case Read cn i of
             (buf, Some err) \<Rightarrow>
               if CheckTimeoutError env err then read_loop env c cn seq (i + 1) d tr'
               else Some (Some err, d, tr')
           | (buf, None) \<Rightarrow>
               (case ParseResponse env buf of
                  Inl err \<Rightarrow> Some (Some err, d, tr')
                | Inr resp \<Rightarrow>
                    if Sequence resp \<noteq> seq \<or> Source resp \<noteq> device_Source d
                    then read_loop env c cn seq (i + 1) d tr'
                    else if Message resp \<noteq> StateVersion env
                    then read_loop env c cn seq (i + 1) d tr'
                    else (case binary_Read (Payload resp) of
                            Inl err \<Rightarrow> Some (Some err, d, tr')
                          | Inr raw \<Rightarrow> Some (None, d\<lparr>version := Version raw\<rparr>, tr')))))"

text \<open>\<open>GetHardwareVersion\<close> from \<open>d.Send\<close> on, over the connection it settled on.\<close>

definition exchange :: "lifxlan \<Rightarrow> ctx \<Rightarrow> conn \<Rightarrow> device \<Rightarrow> event list \<Rightarrow> outcome option" where
  "exchange env c cn d tr =
     (case Send env c cn of
        Inl err \<Rightarrow> Some (Some err, d, tr @ [EvSend (conn_id cn)])
      | Inr seq \<Rightarrow> read_loop env c cn seq 0 d (tr @ [EvSend (conn_id cn)]))"

text \<open>
  The whole call. A nil \<open>conn\<close> argument is \<open>None\<close>. The deferred \<open>newConn.Close()\<close>
  runs on every return after a successful dial, so its event ends the trace there.
\<close>

definition GetHardwareVersion :: "lifxlan \<Rightarrow> device \<Rightarrow> ctx \<Rightarrow> conn option \<Rightarrow> outcome option" where
  "GetHardwareVersion env d c cn =
     (if Done c AtEntry then Some (Some (Err c), d, [])
      else case cn of
        None \<Rightarrow>
          (case Dial env of
             Inl err \<Rightarrow> Some (Some err, d, [EvDial])
           | Inr newConn \<Rightarrow>
               map_option (\<lambda>(r, d', tr). (r, d', tr @ [EvClose (conn_id newConn)]))
                 (if Done c AfterDial then Some (Some (Err c), d, [EvDial])
                  else exchange env c newConn d [EvDial]))
      | Some cn' \<Rightarrow> exchange env c cn' d [])"

section \<open>Reading the trace of a call\<close>

fun is_Send :: "event \<Rightarrow> bool" where
  "is_Send (EvSend k) = True"
| "is_Send e = False"

fun is_Read :: "event \<Rightarrow> bool" where
  "is_Read (EvRead k) = True"
| "is_Read e = False"

definition sends :: "event list \<Rightarrow> nat" where
  "sends tr = length (filter is_Send tr)"

definition reads :: "event list \<Rightarrow> nat" where
  "reads tr = length (filter is_Read tr)"

text \<open>The events of \<open>n\<close> iterations of the read loop that each set the deadline and read.\<close>

definition poll_events :: "conn \<Rightarrow> nat \<Rightarrow> event list" where
  "poll_events cn n = concat (replicate n [EvSetReadDeadline (conn_id cn), EvRead (conn_id cn)])"

text \<open>
  The iterations that end in one of the loop's three \<open>continue\<close> statements: the
  deadline is set, and the read either fails with a timeout error or gives a frame that
  decodes to a response of another sequence, source or message type.
\<close>

definition continues :: "lifxlan \<Rightarrow> conn \<Rightarrow> 8 word \<Rightarrow> device \<Rightarrow> nat \<Rightarrow> bool" where
  "continues env cn seq d i =
     (SetReadDeadline cn i = None \<and>
      (case Read cn i of
         (buf, Some err) \<Rightarrow> CheckTimeoutError env err
       | (buf, None) \<Rightarrow>
           (case ParseResponse env buf of
              Inl err \<Rightarrow> False
            | Inr resp \<Rightarrow> Sequence resp \<noteq> seq \<or> Source resp \<noteq> device_Source d
                           \<or> Message resp \<noteq> StateVersion env)))"

text \<open>
  The iteration at which the loop returns with success: the deadline is set, the read
  gives a frame that decodes to a response of the request's sequence, the device's
  source and type \<open>StateVersion\<close>, and the payload decodes to \<open>raw\<close>.
\<close>

definition accepted_at ::
  "lifxlan \<Rightarrow> ctx \<Rightarrow> conn \<Rightarrow> 8 word \<Rightarrow> device \<Rightarrow> nat \<Rightarrow> RawStateVersionPayload \<Rightarrow> bool" where
  "accepted_at env c cn seq d j raw =
     (\<not> Done c (LoopTop j) \<and> SetReadDeadline cn j = None \<and>
      (case Read cn j of
         (buf, Some err) \<Rightarrow> False
       | (buf, None) \<Rightarrow>
           (case ParseResponse env buf of
              Inl err \<Rightarrow> False
            | Inr resp \<Rightarrow> Sequence resp = seq \<and> Source resp = device_Source d
                           \<and> Message resp = StateVersion env
                           \<and> binary_Read (Payload resp) = Inr raw)))"

section \<open>Sample inputs\<close>

text \<open>
  A connection double, a stub frame decoder and a one-entry product table, on which the
  theorems below are instantiated. The stub decoder reads a frame of three header bytes
  (source, sequence, message type) and a payload.
\<close>

definition sample_ParseResponse :: "byte list \<Rightarrow> error + Response" where
  "sample_ParseResponse buf =
     (case buf of
        src # sq # ty # payload \<Rightarrow>
          Inr \<lparr>Source = ucast src, Sequence = sq, Message = ucast ty, Payload = payload\<rparr>
      | _ \<Rightarrow> Inl (OtherError ''short frame''))"

definition sample_timeout :: error where
  "sample_timeout = OtherError ''i/o timeout''"

definition sample_env :: "error + conn \<Rightarrow> lifxlan" where
  "sample_env dialled =
     \<lparr>Dial = dialled, Send = (\<lambda>c cn. Inr 7), ParseResponse = sample_ParseResponse,
      CheckTimeoutError = (\<lambda>err. err = sample_timeout), StateVersion = 33\<rparr>"

text \<open>A connection whose first \<open>n\<close> reads time out and whose later reads give \<open>frame\<close>.\<close>

definition sample_conn :: "nat \<Rightarrow> byte list \<Rightarrow> conn" where
  "sample_conn n frame =
     \<lparr>conn_id = 1, SetReadDeadline = (\<lambda>i. None),
      Read = (\<lambda>i. if i < n then ([], Some sample_timeout) else (frame, None))\<rparr>"

text \<open>A connection that gives the reads of \<open>script\<close> in order, and timeouts after them.\<close>

definition scripted_conn :: "(byte list \<times> error option) list \<Rightarrow> conn" where
  "scripted_conn script =
     \<lparr>conn_id = 2, SetReadDeadline = (\<lambda>i. None),
      Read = (\<lambda>i. if i < length script then script ! i else ([], Some sample_timeout))\<rparr>"

text \<open>A StateVersion frame for source 5 and sequence 7 that carries the version (1, 27, 2).\<close>

definition sample_frame :: "byte list" where
  "sample_frame = [5, 7, 33, 1, 0, 0, 0, 27, 0, 0, 0, 2, 0, 0, 0]"

definition sample_device :: device where
  "sample_device = \<lparr>source = 5, version = \<lparr>VendorID = 0, ProductID = 0, HardwareVersion = 0\<rparr>\<rparr>"

definition live_ctx :: ctx where
  "live_ctx = \<lparr>Done = (\<lambda>p. False), Err = Canceled\<rparr>"

definition expired_ctx :: ctx where
  "expired_ctx = \<lparr>Done = (\<lambda>p. True), Err = DeadlineExceeded\<rparr>"

text \<open>A context that is done from the \<open>n\<close>-th iteration of the read loop on.\<close>

definition expiring_ctx :: "nat \<Rightarrow> ctx" where
  "expiring_ctx n =
     \<lparr>Done = (\<lambda>p. case p of LoopTop i \<Rightarrow> n \<le> i | _ \<Rightarrow> False), Err = DeadlineExceeded\<rparr>"

definition sample_ProductMap :: "64 word \<rightharpoonup> ParsedHardwareVersion" where
  "sample_ProductMap =
     [ProductMapKey 1 27 \<mapsto>
        \<lparr>ProductName = ''LIFX A19'', Color = True, Infrared = False, MultiZone = False,
         Chain = False, MinKelvin = 2500, MaxKelvin = 9000,
         Raw = \<lparr>VendorID = 0, ProductID = 0, HardwareVersion = 0\<rparr>\<rparr>]"

section \<open>The neighbour table of the animation program\<close>

definition neighbours :: "Coordinate list" where
  "neighbours =
     [\<lparr>X = - 1, Y = - 1\<rparr>,
      \<lparr>X = - 1, Y = 0\<rparr>,
      \<lparr>X = 1, Y = 0\<rparr>,
      \<lparr>X = 0, Y = - 1\<rparr>,
      \<lparr>X = 0, Y = 1\<rparr>,
      \<lparr>X = 1, Y = - 1\<rparr>,
      \<lparr>X = 1, Y = 0\<rparr>,
      \<lparr>X = 1, Y = - 1\<rparr>]"

text \<open>
  The standard enumeration the table is compared with, in the words of the claim: the
  offsets of \<open>{-1, 0, 1} \<times> {-1, 0, 1}\<close> other than \<open>(0, 0)\<close>.
\<close>

definition eight_neighbourhood :: "Coordinate list" where
  "eight_neighbourhood =
     [\<lparr>X = x, Y = y\<rparr>. x \<leftarrow> [- 1, 0, 1], y \<leftarrow> [- 1, 0, 1], \<not> (x = 0 \<and> y = 0)]"

section \<open>Arithmetic of the product key\<close>

lemma unat_u32_bound: "unat (w :: 32 word) < 4294967296"
  using unsigned_less [of w, where 'a = nat] by simp

lemma unat_ucast_u32_u64: "unat (ucast (w :: 32 word) :: 64 word) = unat w"
proof -
  have "unat w < 2 ^ 64" using unat_u32_bound [of w] by simp
  then show ?thesis by (simp add: unsigned_ucast_eq take_bit_nat_eq_self)
qed

lemma unat_shift_u32_u64:
  "unat (push_bit 32 (ucast (w :: 32 word) :: 64 word)) = unat w * 4294967296"
proof -
  have "unat w * 4294967296 < 2 ^ 64" using unat_u32_bound [of w] by simp
  then show ?thesis
    by (simp add: push_bit_eq_mult unat_word_ariths unat_ucast_u32_u64)
qed

lemma unat_ProductMapKey:
  "unat (ProductMapKey v p) = unat v * 4294967296 + unat p"
proof -
  have "unat v * 4294967296 + unat p < 2 ^ 64"
    using unat_u32_bound [of v] unat_u32_bound [of p] by simp
  then show ?thesis
    unfolding ProductMapKey_def
    by (simp only: unat_word_ariths unat_shift_u32_u64 unat_ucast_u32_u64) simp
qed

lemma ProductMapKey_high: "ucast (drop_bit 32 (ProductMapKey v p)) = v"
proof -
  have "unat (drop_bit 32 (ProductMapKey v p)) = unat v"
    using unat_u32_bound [of p]
    by (simp add: drop_bit_eq_div unat_div unat_ProductMapKey)
  then have "unat (ucast (drop_bit 32 (ProductMapKey v p)) :: 32 word) = unat v"
    using unat_u32_bound [of v]
    by (simp add: unsigned_ucast_eq take_bit_nat_eq_self)
  then show ?thesis by (simp only: word_unat_eq_iff)
qed

lemma ProductMapKey_low: "ucast (ProductMapKey v p) = p"
proof -
  have "unat (ucast (ProductMapKey v p) :: 32 word) = unat p"
    using unat_u32_bound [of p]
    by (simp add: unsigned_ucast_eq take_bit_eq_mod unat_ProductMapKey)
  then show ?thesis by (simp only: word_unat_eq_iff)
qed

lemma ProductMapKey_eq_iff:
  "ProductMapKey v1 p1 = ProductMapKey v2 p2 \<longleftrightarrow> v1 = v2 \<and> p1 = p2"
  by (metis ProductMapKey_high ProductMapKey_low)

lemma ProductMapKey_less_iff:
  "ProductMapKey v1 p1 < ProductMapKey v2 p2 \<longleftrightarrow> v1 < v2 \<or> (v1 = v2 \<and> p1 < p2)"
proof -
  have "unat v1 * 4294967296 + unat p1 < unat v2 * 4294967296 + unat p2
    \<longleftrightarrow> unat v1 < unat v2 \<or> (unat v1 = unat v2 \<and> unat p1 < unat p2)"
    using unat_u32_bound [of p1] unat_u32_bound [of p2] by auto
  then show ?thesis
    by (simp add: word_less_nat_alt unat_ProductMapKey word_unat_eq_iff)
qed

section \<open>The read loop\<close>

lemma poll_events_snoc:
  "poll_events cn (Suc n) = poll_events cn n @ [EvSetReadDeadline (conn_id cn), EvRead (conn_id cn)]"
  by (induction n) (simp_all add: poll_events_def)

lemma sends_poll_events: "sends (poll_events cn n) = 0"
  by (induction n) (simp_all add: poll_events_def sends_def)

lemma reads_poll_events: "reads (poll_events cn n) = n"
  by (induction n) (simp_all add: poll_events_def reads_def)

lemma sends_loop_events:
  "set evs \<subseteq> {EvSetReadDeadline k, EvRead k} \<Longrightarrow> sends evs = 0"
  by (induction evs) (auto simp: sends_def)

lemma read_loop_done:
  "Done c (LoopTop i) \<Longrightarrow> read_loop env c cn seq i d tr = Some (Some (Err c), d, tr)"
  by (subst read_loop.simps) simp

lemma read_loop_deadline_error:
  "\<not> Done c (LoopTop i) \<Longrightarrow> SetReadDeadline cn i = Some err \<Longrightarrow>
   read_loop env c cn seq i d tr = Some (Some err, d, tr @ [EvSetReadDeadline (conn_id cn)])"
  by (subst read_loop.simps) simp

lemma read_loop_read_error:
  "\<not> Done c (LoopTop i) \<Longrightarrow> SetReadDeadline cn i = None \<Longrightarrow> Read cn i = (buf, Some err) \<Longrightarrow>
   \<not> CheckTimeoutError env err \<Longrightarrow>
   read_loop env c cn seq i d tr = Some (Some err, d, tr @ poll_events cn (Suc 0))"
  by (subst read_loop.simps) (simp add: poll_events_def Let_def split: sum.splits)

lemma read_loop_parse_error:
  "\<not> Done c (LoopTop i) \<Longrightarrow> SetReadDeadline cn i = None \<Longrightarrow> Read cn i = (buf, None) \<Longrightarrow>
   ParseResponse env buf = Inl err \<Longrightarrow>
   read_loop env c cn seq i d tr = Some (Some err, d, tr @ poll_events cn (Suc 0))"
  by (subst read_loop.simps) (simp add: poll_events_def Let_def split: sum.splits)

lemma read_loop_response:
  "\<not> Done c (LoopTop i) \<Longrightarrow> SetReadDeadline cn i = None \<Longrightarrow> Read cn i = (buf, None) \<Longrightarrow>
   ParseResponse env buf = Inr resp \<Longrightarrow>
   read_loop env c cn seq i d tr =
     (if Source resp = device_Source d \<and> Sequence resp = seq \<and> Message resp = StateVersion env
      then (case binary_Read (Payload resp) of
              Inl err \<Rightarrow> Some (Some err, d, tr @ poll_events cn (Suc 0))
            | Inr raw \<Rightarrow> Some (None, d\<lparr>version := Version raw\<rparr>, tr @ poll_events cn (Suc 0)))
      else read_loop env c cn seq (Suc i) d (tr @ poll_events cn (Suc 0)))"
  by (subst read_loop.simps) (simp add: poll_events_def Let_def split: sum.splits)

lemma read_loop_continue:
  assumes "\<not> Done c (LoopTop i)" and "continues env cn seq d i"
  shows "read_loop env c cn seq i d tr = read_loop env c cn seq (Suc i) d (tr @ poll_events cn (Suc 0))"
  using assms
  by (subst read_loop.simps)
     (auto simp: continues_def poll_events_def Let_def split: option.splits prod.splits sum.splits)

lemma read_loop_skip:
  assumes "\<forall>j<n. \<not> Done c (LoopTop (i + j)) \<and> continues env cn seq d (i + j)"
  shows "read_loop env c cn seq i d tr = read_loop env c cn seq (i + n) d (tr @ poll_events cn n)"
  using assms
proof (induction n arbitrary: i tr)
  case 0
  then show ?case by (simp add: poll_events_def)
next
  case (Suc n)
  from Suc.prems have here: "\<not> Done c (LoopTop i)" "continues env cn seq d i"
    by auto
  from Suc.prems have "\<forall>j<n. \<not> Done c (LoopTop (Suc i + j)) \<and> continues env cn seq d (Suc i + j)"
    by (metis Suc_less_eq add_Suc_right add_Suc)
  from Suc.IH [OF this] read_loop_continue [OF here]
  show ?case by (simp add: poll_events_def)
qed

lemma read_loop_events:
  assumes "read_loop env c cn seq i d tr = Some y"
  shows "\<exists>evs. snd (snd y) = tr @ evs
           \<and> set evs \<subseteq> {EvSetReadDeadline (conn_id cn), EvRead (conn_id cn)}"
  using assms
proof (induction env c cn seq i d tr y rule: read_loop.raw_induct [rotated 1, consumes 1])
  case (1 read_loop env c cn seq i d tr y)
  let ?two = "[EvSetReadDeadline (conn_id cn), EvRead (conn_id cn)]"
  have later: "\<exists>evs. snd (snd y) = tr @ evs \<and> set evs \<subseteq> {EvSetReadDeadline (conn_id cn), EvRead (conn_id cn)}"
    if "read_loop env c cn seq (i + 1) d (tr @ ?two) = Some y"
  proof -
    from "1.IH" [OF that] obtain evs where
      "snd (snd y) = (tr @ ?two) @ evs" "set evs \<subseteq> {EvSetReadDeadline (conn_id cn), EvRead (conn_id cn)}"
      by blast
    then have "snd (snd y) = tr @ (?two @ evs) \<and> set (?two @ evs) \<subseteq> {EvSetReadDeadline (conn_id cn), EvRead (conn_id cn)}"
      by simp
    then show ?thesis by blast
  qed
  from "1.hyps" later show ?case
    by (auto simp: Let_def split: if_splits option.splits prod.splits sum.splits)
qed

lemma read_loop_error_keeps_device:
  assumes "read_loop env c cn seq i d tr = Some y" and "fst y \<noteq> None"
  shows "fst (snd y) = d"
  using assms
proof (induction env c cn seq i d tr y rule: read_loop.raw_induct [rotated 1, consumes 1])
  case (1 read_loop env c cn seq i d tr y)
  from "1.hyps" "1.prems" "1.IH" show ?case
    by (auto simp: Let_def split: if_splits option.splits prod.splits sum.splits)
qed

lemma read_loop_success:
  assumes "read_loop env c cn seq i d tr = Some y" and "fst y = None"
  shows "\<exists>j raw. i \<le> j \<and> accepted_at env c cn seq d j raw
           \<and> fst (snd y) = d\<lparr>version := Version raw\<rparr>
           \<and> snd (snd y) = tr @ poll_events cn (Suc (j - i))"
  using assms
proof (induction env c cn seq i d tr y rule: read_loop.raw_induct [rotated 1, consumes 1])
  case (1 read_loop env c cn seq i d tr y)
  let ?two = "[EvSetReadDeadline (conn_id cn), EvRead (conn_id cn)]"
  have later: ?case if "read_loop env c cn seq (i + 1) d (tr @ ?two) = Some y"
  proof -
    from "1.IH" [OF that "1.prems"] obtain j raw where j:
      "i + 1 \<le> j" "accepted_at env c cn seq d j raw" "fst (snd y) = d\<lparr>version := Version raw\<rparr>"
      "snd (snd y) = (tr @ ?two) @ poll_events cn (Suc (j - (i + 1)))"
      by blast
    from j(1) have "Suc (j - i) = Suc (Suc (j - (i + 1)))" by simp
    with j(4) have "snd (snd y) = tr @ poll_events cn (Suc (j - i))"
      by (simp add: poll_events_def)
    with j show ?thesis by (intro exI [of _ j] exI [of _ raw]) simp
  qed
  have now: ?case
    if "\<not> Done c (LoopTop i)" "SetReadDeadline cn i = None" "Read cn i = (buf, None)"
      "ParseResponse env buf = Inr resp" "Sequence resp = seq" "Source resp = device_Source d"
      "Message resp = StateVersion env" "binary_Read (Payload resp) = Inr raw"
      "y = (None, d\<lparr>version := Version raw\<rparr>, tr @ ?two)" for buf resp raw
    using that
    by (intro exI [of _ i] exI [of _ raw]) (simp add: accepted_at_def poll_events_def)
  from "1.hyps" "1.prems" later now show ?case
    by (auto simp: Let_def split: if_splits option.splits prod.splits sum.splits)
qed

section \<open>The whole call\<close>

lemma read_loop_prefix_Some:
  assumes "read_loop env c cn seq i d tr = Some y"
  shows "read_loop env c cn seq i d (p @ tr) = Some (fst y, fst (snd y), p @ snd (snd y))"
  using assms
proof (induction env c cn seq i d tr y rule: read_loop.raw_induct [rotated 1, consumes 1])
  case (1 read_loop env c cn seq i d tr y)
  from "1.hyps" "1.IH" show ?case
    by (subst Spec2Isabelle.read_loop.simps)
       (auto simp: Let_def split: if_splits option.splits prod.splits sum.splits)
qed

lemma read_loop_prefix_back:
  assumes "read_loop env c cn seq i d tr0 = Some y" and "tr0 = p @ tr"
  shows "read_loop env c cn seq i d tr = Some (fst y, fst (snd y), drop (length p) (snd (snd y)))
         \<and> snd (snd y) = p @ drop (length p) (snd (snd y))"
  using assms
proof (induction env c cn seq i d tr0 y arbitrary: tr rule: read_loop.raw_induct [rotated 1, consumes 1])
  case (1 read_loop env c cn seq i d tr0 y)
  let ?two = "[EvSetReadDeadline (conn_id cn), EvRead (conn_id cn)]"
  have later:
    "Spec2Isabelle.read_loop env c cn seq (Suc i) d (tr @ ?two) =
       Some (fst y, fst (snd y), drop (length p) (snd (snd y)))
     \<and> snd (snd y) = p @ drop (length p) (snd (snd y))"
    if "read_loop env c cn seq (Suc i) d (p @ tr @ ?two) = Some y"
  proof -
    from "1.prems" have "tr0 @ ?two = p @ (tr @ ?two)" by simp
    with that have "read_loop env c cn seq (i + 1) d (tr0 @ ?two) = Some y" by simp
    from "1.IH" [OF this \<open>tr0 @ ?two = p @ (tr @ ?two)\<close>] show ?thesis by simp
  qed
  from "1.hyps" "1.prems" later show ?case
    by (subst Spec2Isabelle.read_loop.simps)
       (auto simp: Let_def split: if_splits option.splits prod.splits sum.splits)
qed

lemma read_loop_prefix:
  "read_loop env c cn seq i d (p @ tr) =
     map_option (\<lambda>(r, d', t). (r, d', p @ t)) (read_loop env c cn seq i d tr)"
proof (cases "read_loop env c cn seq i d tr")
  case (Some y)
  from read_loop_prefix_Some [OF this, of p] Some show ?thesis
    by (simp add: case_prod_beta)
next
  case None
  show ?thesis
  proof (cases "read_loop env c cn seq i d (p @ tr)")
    case inner: None
    with None show ?thesis by simp
  next
    case (Some y)
    from read_loop_prefix_back [OF this refl] None show ?thesis by simp
  qed
qed

lemma exchange_prefix:
  "exchange env c cn d (p @ tr) = map_option (\<lambda>(r, d', t). (r, d', p @ t)) (exchange env c cn d tr)"
proof -
  have "read_loop env c cn seq 0 d (p @ (tr @ [EvSend (conn_id cn)])) =
        map_option (\<lambda>(r, d', t). (r, d', p @ t)) (read_loop env c cn seq 0 d (tr @ [EvSend (conn_id cn)]))"
    for seq
    by (rule read_loop_prefix)
  then show ?thesis
    by (simp add: exchange_def split: sum.splits)
qed

lemma GetHardwareVersion_dialled:
  assumes "\<not> Done c AtEntry" and "Dial env = Inr k" and "\<not> Done c AfterDial"
  shows "GetHardwareVersion env d c None =
           map_option (\<lambda>(r, d', tr). (r, d', EvDial # tr @ [EvClose (conn_id k)]))
             (GetHardwareVersion env d c (Some k))"
proof -
  have "exchange env c k d ([EvDial] @ []) =
          map_option (\<lambda>(r, d', t). (r, d', [EvDial] @ t)) (exchange env c k d [])"
    by (rule exchange_prefix)
  with assms show ?thesis
    by (cases "exchange env c k d []") (auto simp: GetHardwareVersion_def split: prod.splits)
qed

lemma exchange_events:
  assumes "exchange env c cn d tr = Some y"
  shows "\<exists>evs. snd (snd y) = tr @ EvSend (conn_id cn) # evs
           \<and> set evs \<subseteq> {EvSetReadDeadline (conn_id cn), EvRead (conn_id cn)}"
proof (cases "Send env c cn")
  case (Inl err)
  with assms show ?thesis by (auto simp: exchange_def)
next
  case (Inr seq)
  with assms have "read_loop env c cn seq 0 d (tr @ [EvSend (conn_id cn)]) = Some y"
    by (simp add: exchange_def)
  from read_loop_events [OF this] show ?thesis by auto
qed

lemma exchange_error_keeps_device:
  assumes "exchange env c cn d tr = Some y" and "fst y \<noteq> None"
  shows "fst (snd y) = d"
proof (cases "Send env c cn")
  case (Inl err)
  with assms show ?thesis by (auto simp: exchange_def)
next
  case (Inr seq)
  with assms have "read_loop env c cn seq 0 d (tr @ [EvSend (conn_id cn)]) = Some y"
    by (simp add: exchange_def)
  from read_loop_error_keeps_device [OF this assms(2)] show ?thesis .
qed

lemma exchange_success:
  assumes "exchange env c cn d tr = Some y" and "fst y = None"
  shows "\<exists>seq j raw. Send env c cn = Inr seq \<and> accepted_at env c cn seq d j raw
           \<and> fst (snd y) = d\<lparr>version := Version raw\<rparr>
           \<and> snd (snd y) = tr @ EvSend (conn_id cn) # poll_events cn (Suc j)"
proof (cases "Send env c cn")
  case (Inl err)
  with assms show ?thesis by (auto simp: exchange_def)
next
  case (Inr seq)
  with assms have "read_loop env c cn seq 0 d (tr @ [EvSend (conn_id cn)]) = Some y"
    by (simp add: exchange_def)
  from read_loop_success [OF this assms(2)] Inr show ?thesis by auto
qed

text \<open>The shapes a trace of the whole call can have.\<close>

lemma GetHardwareVersion_trace:
  assumes "GetHardwareVersion env d c cn = Some (r, d', tr)"
  shows "(tr = [] \<and> r \<noteq> None) \<or> (tr = [EvDial] \<and> r \<noteq> None)
         \<or> (\<exists>k. tr = [EvDial, EvClose k] \<and> r \<noteq> None)
         \<or> (\<exists>k evs. set evs \<subseteq> {EvSetReadDeadline k, EvRead k}
               \<and> (tr = EvSend k # evs \<or> tr = EvDial # EvSend k # evs @ [EvClose k]))"
proof (cases "Done c AtEntry")
  case True
  with assms show ?thesis by (auto simp: GetHardwareVersion_def)
next
  case live: False
  show ?thesis
  proof (cases cn)
    case (Some k)
    with assms live have "exchange env c k d [] = Some (r, d', tr)"
      by (simp add: GetHardwareVersion_def)
    from exchange_events [OF this] show ?thesis by auto
  next
    case None
    show ?thesis
    proof (cases "Dial env")
      case (Inl err)
      with assms live None show ?thesis by (auto simp: GetHardwareVersion_def)
    next
      case (Inr k)
      show ?thesis
      proof (cases "Done c AfterDial")
        case True
        with assms live None Inr show ?thesis by (auto simp: GetHardwareVersion_def)
      next
        case False
        with assms live None Inr obtain t where
          t: "exchange env c k d [EvDial] = Some (r, d', t)" "tr = t @ [EvClose (conn_id k)]"
          by (auto simp: GetHardwareVersion_def)
        from exchange_events [OF t(1)] t(2) show ?thesis by auto
      qed
    qed
  qed
qed

text \<open>A run of \<open>n\<close> iterations that continue, then a matching response.\<close>

lemma exchange_after_skips:
  assumes live: "\<forall>j<n. \<not> Done c (LoopTop j) \<and> continues env k seq d j"
    and send: "Send env c k = Inr seq"
  shows "exchange env c k d tr =
         read_loop env c k seq n d (tr @ EvSend (conn_id k) # poll_events k n)"
proof -
  from live have "\<forall>j<n. \<not> Done c (LoopTop (0 + j)) \<and> continues env k seq d (0 + j)"
    by simp
  from read_loop_skip [OF this, of "tr @ [EvSend (conn_id k)]"] send
  show ?thesis by (simp add: exchange_def)
qed

lemma GetHardwareVersion_answer_after_skips:
  assumes entry: "\<not> Done c AtEntry"
    and send: "Send env c k = Inr seq"
    and skips: "\<forall>j<n. \<not> Done c (LoopTop j) \<and> continues env k seq d j"
    and acc: "accepted_at env c k seq d n raw"
  shows "GetHardwareVersion env d c (Some k) =
           Some (None, d\<lparr>version := Version raw\<rparr>, EvSend (conn_id k) # poll_events k (Suc n))"
proof -
  from acc obtain buf resp where r:
    "\<not> Done c (LoopTop n)" "SetReadDeadline k n = None" "Read k n = (buf, None)"
    "ParseResponse env buf = Inr resp" "Sequence resp = seq" "Source resp = device_Source d"
    "Message resp = StateVersion env" "binary_Read (Payload resp) = Inr raw"
    by (auto simp: accepted_at_def split: prod.splits option.splits sum.splits)
  have "read_loop env c k seq n d (EvSend (conn_id k) # poll_events k n) =
          Some (None, d\<lparr>version := Version raw\<rparr>, (EvSend (conn_id k) # poll_events k n) @ poll_events k (Suc 0))"
    using read_loop_response [OF r(1-4)] r(5-8) by simp
  moreover have "poll_events k n @ poll_events k (Suc 0) = poll_events k (Suc n)"
    unfolding poll_events_snoc [of k n] by (simp add: poll_events_def)
  ultimately show ?thesis
    using entry exchange_after_skips [OF skips send, of "[]"]
    by (simp add: GetHardwareVersion_def)
qed

lemma GetHardwareVersion_cancelled_after_skips:
  assumes entry: "\<not> Done c AtEntry"
    and send: "Send env c k = Inr seq"
    and skips: "\<forall>j<n. \<not> Done c (LoopTop j) \<and> continues env k seq d j"
    and expired: "Done c (LoopTop n)"
  shows "GetHardwareVersion env d c (Some k) =
           Some (Some (Err c), d, EvSend (conn_id k) # poll_events k n)"
  using entry exchange_after_skips [OF skips send, of "[]"] read_loop_done [OF expired]
  by (simp add: GetHardwareVersion_def)

lemma GetHardwareVersion_sends:
  assumes "GetHardwareVersion env d c cn = Some (r, d', tr)"
  shows "sends tr \<le> 1 \<and> (r = None \<longrightarrow> sends tr = 1 \<and> reads (takeWhile (\<lambda>e. \<not> is_Send e) tr) = 0)"
proof -
  from GetHardwareVersion_trace [OF assms]
  consider "tr = []" "r \<noteq> None" | "tr = [EvDial]" "r \<noteq> None"
    | k where "tr = [EvDial, EvClose k]" "r \<noteq> None"
    | k evs where "set evs \<subseteq> {EvSetReadDeadline k, EvRead k}" "tr = EvSend k # evs"
    | k evs where "set evs \<subseteq> {EvSetReadDeadline k, EvRead k}" "tr = EvDial # EvSend k # evs @ [EvClose k]"
    by blast
  then show ?thesis
  proof cases
    case 1
    then show ?thesis by (simp add: sends_def)
  next
    case 2
    then show ?thesis by (simp add: sends_def)
  next
    case 3
    then show ?thesis by (simp add: sends_def)
  next
    case 4
    from sends_loop_events [OF 4(1)] 4(2) show ?thesis
      by (simp add: sends_def reads_def)
  next
    case 5
    from sends_loop_events [OF 5(1)] 5(2) show ?thesis
      by (simp add: sends_def reads_def)
  qed
qed

lemma sample_frame_parses:
  "sample_ParseResponse sample_frame =
     Inr \<lparr>Source = 5, Sequence = 7, Message = 33, Payload = [1, 0, 0, 0, 27, 0, 0, 0, 2, 0, 0, 0]\<rparr>"
  by (simp add: sample_ParseResponse_def sample_frame_def)

lemma sample_payload_decodes:
  "binary_Read [1, 0, 0, 0, 27, 0, 0, 0, 2, 0, 0, 0] =
     Inr \<lparr>Version = \<lparr>VendorID = 1, ProductID = 27, HardwareVersion = 2\<rparr>\<rparr>"
  by (simp add: binary_Read_def le_uint32_def)

lemma GetHardwareVersion_error_keeps_device:
  assumes "GetHardwareVersion env d c cn = Some (Some err, d', tr)"
  shows "d' = d"
proof (cases "Done c AtEntry")
  case True
  with assms show ?thesis by (simp add: GetHardwareVersion_def)
next
  case live: False
  show ?thesis
  proof (cases cn)
    case (Some k)
    with assms live have "exchange env c k d [] = Some (Some err, d', tr)"
      by (simp add: GetHardwareVersion_def)
    from exchange_error_keeps_device [OF this] show ?thesis by simp
  next
    case None
    show ?thesis
    proof (cases "Dial env")
      case (Inl e)
      with assms live None show ?thesis by (simp add: GetHardwareVersion_def)
    next
      case (Inr k)
      show ?thesis
      proof (cases "Done c AfterDial")
        case True
        with assms live None Inr show ?thesis by (auto simp: GetHardwareVersion_def)
      next
        case False
        with assms live None Inr obtain t where
          "exchange env c k d [EvDial] = Some (Some err, d', t)"
          by (auto simp: GetHardwareVersion_def)
        from exchange_error_keeps_device [OF this] show ?thesis by simp
      qed
    qed
  qed
qed

lemma GetHardwareVersion_success:
  assumes "GetHardwareVersion env d c cn = Some (None, d', tr)"
  shows "\<exists>k seq j raw. (cn = Some k \<or> cn = None \<and> Dial env = Inr k)
           \<and> Send env c k = Inr seq \<and> accepted_at env c k seq d j raw
           \<and> d' = d\<lparr>version := Version raw\<rparr>"
proof (cases "Done c AtEntry")
  case True
  with assms show ?thesis by (simp add: GetHardwareVersion_def)
next
  case live: False
  show ?thesis
  proof (cases cn)
    case (Some k)
    with assms live have "exchange env c k d [] = Some (None, d', tr)"
      by (simp add: GetHardwareVersion_def)
    from exchange_success [OF this] Some show ?thesis by auto
  next
    case None
    show ?thesis
    proof (cases "Dial env")
      case (Inl e)
      with assms live None show ?thesis by (simp add: GetHardwareVersion_def)
    next
      case (Inr k)
      show ?thesis
      proof (cases "Done c AfterDial")
        case True
        with assms live None Inr show ?thesis by (auto simp: GetHardwareVersion_def)
      next
        case False
        with assms live None Inr obtain t where
          "exchange env c k d [EvDial] = Some (None, d', t)"
          by (auto simp: GetHardwareVersion_def)
        from exchange_success [OF this] None Inr show ?thesis by auto
      qed
    qed
  qed
qed

lemma accepted_at_iff:
  "accepted_at env c k seq d j raw \<longleftrightarrow>
     (\<exists>buf resp. \<not> Done c (LoopTop j) \<and> SetReadDeadline k j = None \<and> Read k j = (buf, None)
        \<and> ParseResponse env buf = Inr resp \<and> Sequence resp = seq
        \<and> Source resp = device_Source d \<and> Message resp = StateVersion env
        \<and> binary_Read (Payload resp) = Inr raw)"
  by (auto simp: accepted_at_def split: prod.splits option.splits sum.splits)

lemma binary_Read_short:
  "length payload < 12 \<Longrightarrow>
   binary_Read payload = Inl (if payload = [] then EOF else ErrUnexpectedEOF)"
  by (simp add: binary_Read_def)

lemma binary_Read_Inr:
  "binary_Read payload = Inr raw \<Longrightarrow>
   12 \<le> length payload \<and>
   Version raw = \<lparr>VendorID = le_uint32 (take 4 payload),
                   ProductID = le_uint32 (take 4 (drop 4 payload)),
                   HardwareVersion = le_uint32 (take 4 (drop 8 payload))\<rparr>"
  by (auto simp: binary_Read_def split: if_splits)

lemma sample_success_run:
  "GetHardwareVersion (sample_env dialled) sample_device live_ctx (Some (sample_conn 2 sample_frame)) =
     Some (None,
           \<lparr>source = 5, version = \<lparr>VendorID = 1, ProductID = 27, HardwareVersion = 2\<rparr>\<rparr>,
           [EvSend 1, EvSetReadDeadline 1, EvRead 1, EvSetReadDeadline 1, EvRead 1,
            EvSetReadDeadline 1, EvRead 1])"
proof -
  let ?env = "sample_env dialled" and ?k = "sample_conn 2 sample_frame"
  have entry: "\<not> Done live_ctx AtEntry"
    by (simp add: live_ctx_def)
  have send: "Send ?env live_ctx ?k = Inr 7"
    by (simp add: sample_env_def)
  have skips: "\<forall>j<2. \<not> Done live_ctx (LoopTop j) \<and> continues ?env ?k 7 sample_device j"
    by (simp add: live_ctx_def continues_def sample_conn_def sample_env_def)
  have acc: "accepted_at ?env live_ctx ?k 7 sample_device 2
               \<lparr>Version = \<lparr>VendorID = 1, ProductID = 27, HardwareVersion = 2\<rparr>\<rparr>"
    using sample_frame_parses sample_payload_decodes
    by (simp add: accepted_at_def live_ctx_def sample_conn_def sample_env_def sample_device_def
        device_Source_def)
  from GetHardwareVersion_answer_after_skips [OF entry send skips acc]
  show ?thesis
    by (simp add: sample_device_def sample_conn_def poll_events_def numeral_2_eq_2)
qed

lemma sample_short_payload_run:
  "GetHardwareVersion (sample_env dialled) sample_device live_ctx
       (Some (scripted_conn [([5, 7, 33, 1, 0], None)])) =
     Some (Some ErrUnexpectedEOF, sample_device, [EvSend 2, EvSetReadDeadline 2, EvRead 2])"
proof -
  let ?env = "sample_env dialled" and ?k = "scripted_conn [([5, 7, 33, 1, 0], None)]"
  have "read_loop ?env live_ctx ?k 7 0 sample_device [EvSend 2] =
          Some (Some ErrUnexpectedEOF, sample_device, [EvSend 2, EvSetReadDeadline 2, EvRead 2])"
    using read_loop_response [of live_ctx 0 ?k "[5, 7, 33, 1, 0]" ?env
        "\<lparr>Source = 5, Sequence = 7, Message = 33, Payload = [1, 0]\<rparr>" 7 sample_device "[EvSend 2]"]
    by (simp add: live_ctx_def scripted_conn_def sample_env_def sample_ParseResponse_def
        sample_device_def device_Source_def binary_Read_def poll_events_def)
  then show ?thesis
    by (simp add: GetHardwareVersion_def exchange_def live_ctx_def sample_env_def scripted_conn_def)
qed

lemma sample_bad_frame_run:
  "GetHardwareVersion (sample_env dialled) sample_device live_ctx
       (Some (scripted_conn [([5, 7], None)])) =
     Some (Some (OtherError ''short frame''), sample_device,
           [EvSend 2, EvSetReadDeadline 2, EvRead 2])"
proof -
  let ?env = "sample_env dialled" and ?k = "scripted_conn [([5, 7], None)]"
  have "read_loop ?env live_ctx ?k 7 0 sample_device [EvSend 2] =
          Some (Some (OtherError ''short frame''), sample_device,
                [EvSend 2, EvSetReadDeadline 2, EvRead 2])"
    using read_loop_parse_error [of live_ctx 0 ?k "[5, 7]" ?env "OtherError ''short frame''"
        7 sample_device "[EvSend 2]"]
    by (simp add: live_ctx_def scripted_conn_def sample_env_def sample_ParseResponse_def
        poll_events_def)
  then show ?thesis
    by (simp add: GetHardwareVersion_def exchange_def live_ctx_def sample_env_def scripted_conn_def)
qed

lemma GetHardwareVersion_dialled_trace:
  assumes "Dial env = Inr k" and "GetHardwareVersion env d c None = Some (r, d', tr)"
    and "\<not> Done c AtEntry"
  shows "hd tr = EvDial \<and> last tr = EvClose (conn_id k)
         \<and> set tr \<subseteq> {EvDial, EvSend (conn_id k), EvSetReadDeadline (conn_id k),
                         EvRead (conn_id k), EvClose (conn_id k)}"
proof (cases "Done c AfterDial")
  case True
  with assms show ?thesis by (auto simp: GetHardwareVersion_def)
next
  case False
  with assms obtain t where
    t: "exchange env c k d [EvDial] = Some (r, d', t)" "tr = t @ [EvClose (conn_id k)]"
    by (auto simp: GetHardwareVersion_def)
  from exchange_events [OF t(1)] t(2) show ?thesis by auto
qed

section \<open>The claims\<close>

text \<open>
  C6: \<open>ProductMapKey\<close> packs two 32-bit identifiers into a 64-bit key without loss and
  in order. Two pairs that differ have keys that differ; the vendor id is the high 32
  bits of the key and the product id the low 32 bits; and the keys are ordered as the
  pairs are, vendor first. The method of \<open>RawHardwareVersion\<close> is the same function of the
  record's two ids.
\<close>

theorem ProductMapKey_injective_packing:
  "((v1, p1) \<noteq> (v2, p2) \<longrightarrow> ProductMapKey v1 p1 \<noteq> ProductMapKey v2 p2)
   \<and> ucast (drop_bit 32 (ProductMapKey v1 p1)) = v1
   \<and> ucast (take_bit 32 (ProductMapKey v1 p1)) = p1
   \<and> unat (ProductMapKey v1 p1) = unat v1 * 2 ^ 32 + unat p1
   \<and> (ProductMapKey v1 p1 < ProductMapKey v2 p2 \<longleftrightarrow> v1 < v2 \<or> (v1 = v2 \<and> p1 < p2))
   \<and> raw_ProductMapKey \<lparr>VendorID = v1, ProductID = p1, HardwareVersion = h\<rparr> = ProductMapKey v1 p1"
proof -
  have low: "ucast (take_bit 32 (ProductMapKey v1 p1)) = p1"
  proof -
    have "unat (ucast (take_bit 32 (ProductMapKey v1 p1)) :: 32 word) = unat p1"
      using unat_u32_bound [of p1]
      by (simp add: unsigned_ucast_eq take_bit_eq_mod unat_mod unat_ProductMapKey)
    then show ?thesis by (simp only: word_unat_eq_iff)
  qed
  show ?thesis
    using low
    by (simp add: ProductMapKey_eq_iff ProductMapKey_high ProductMapKey_less_iff
        unat_ProductMapKey raw_ProductMapKey_def)
qed

theorem ProductMapKey_injective_packing_witness:
  "ProductMapKey 1 27 \<noteq> ProductMapKey 27 1
   \<and> ProductMapKey 1 27 = 4294967323
   \<and> ucast (drop_bit 32 (ProductMapKey 1 27)) = (1 :: 32 word)
   \<and> ucast (take_bit 32 (ProductMapKey 1 27)) = (27 :: 32 word)
   \<and> ProductMapKey 1 27 < ProductMapKey 27 1"
  using ProductMapKey_injective_packing [of 1 27 27 1 0]
  by (simp add: ProductMapKey_def)

text \<open>
  C9: the table \<open>neighbours\<close> of the animation program has eight entries, but they are
  not the eight offsets of the standard neighbourhood: an offset is there twice (in fact
  two are, \<open>(1, 0)\<close> and \<open>(1, -1)\<close>), and an adjacent direction is missing (in fact two
  are, \<open>(-1, 1)\<close> and \<open>(1, 1)\<close>), so that the table holds six distinct offsets.
\<close>

theorem neighbours_not_eight_neighbourhood:
  "length neighbours = 8
   \<and> distinct eight_neighbourhood \<and> length eight_neighbourhood = 8
   \<and> \<not> distinct neighbours
   \<and> set neighbours \<noteq> set eight_neighbourhood
   \<and> count_list neighbours \<lparr>X = 1, Y = 0\<rparr> = 2
   \<and> count_list neighbours \<lparr>X = 1, Y = - 1\<rparr> = 2
   \<and> \<lparr>X = 1, Y = 1\<rparr> \<notin> set neighbours
   \<and> \<lparr>X = - 1, Y = 1\<rparr> \<notin> set neighbours
   \<and> set eight_neighbourhood - set neighbours = {\<lparr>X = - 1, Y = 1\<rparr>, \<lparr>X = 1, Y = 1\<rparr>}
   \<and> card (set neighbours) = 6"
proof -
  have missing: "\<lparr>X = 1, Y = 1\<rparr> \<notin> set neighbours"
    by (simp add: neighbours_def)
  have present: "\<lparr>X = 1, Y = 1\<rparr> \<in> set eight_neighbourhood"
    by (simp add: eight_neighbourhood_def)
  have differ: "set neighbours \<noteq> set eight_neighbourhood"
    using missing present by blast
  have diff: "set eight_neighbourhood - set neighbours = {\<lparr>X = - 1, Y = 1\<rparr>, \<lparr>X = 1, Y = 1\<rparr>}"
    by (auto simp: neighbours_def eight_neighbourhood_def)
  have six: "card (set neighbours) = 6"
    by (simp add: neighbours_def card_insert_if)
  show ?thesis
    using differ diff six
    by (simp add: neighbours_def eight_neighbourhood_def)
qed

text \<open>
  C7: when the key of a raw version is in the product map, \<open>Parse\<close> returns a descriptor
  (not nil): the map's entry with its \<open>Raw\<close> field set to the raw version given, and
  \<open>String\<close> is the product name followed at once by the three numbers in the form
  \<open>(vendor, product, hardware)\<close>.
\<close>

theorem Parse_known_product:
  "ProductMap (raw_ProductMapKey raw) = Some p \<Longrightarrow>
     Parse ProductMap raw = Some (p\<lparr>Raw := raw\<rparr>)
     \<and> Parse ProductMap raw \<noteq> None
     \<and> Raw (the (Parse ProductMap raw)) = raw
     \<and> String ProductMap raw =
         ProductName p @ ''('' @ decimal (unat (VendorID raw)) @ '', ''
           @ decimal (unat (ProductID raw)) @ '', '' @ decimal (unat (HardwareVersion raw)) @ '')''"
  by (simp add: Parse_def String_def)

theorem Parse_known_product_witness:
  "sample_ProductMap (raw_ProductMapKey \<lparr>VendorID = 1, ProductID = 27, HardwareVersion = 4294967295\<rparr>)
       = Some \<lparr>ProductName = ''LIFX A19'', Color = True, Infrared = False, MultiZone = False,
               Chain = False, MinKelvin = 2500, MaxKelvin = 9000,
               Raw = \<lparr>VendorID = 0, ProductID = 0, HardwareVersion = 0\<rparr>\<rparr>
   \<and> Parse sample_ProductMap \<lparr>VendorID = 1, ProductID = 27, HardwareVersion = 4294967295\<rparr>
       = Some \<lparr>ProductName = ''LIFX A19'', Color = True, Infrared = False, MultiZone = False,
               Chain = False, MinKelvin = 2500, MaxKelvin = 9000,
               Raw = \<lparr>VendorID = 1, ProductID = 27, HardwareVersion = 4294967295\<rparr>\<rparr>
   \<and> String sample_ProductMap \<lparr>VendorID = 1, ProductID = 27, HardwareVersion = 4294967295\<rparr>
       = ''LIFX A19(1, 27, 4294967295)''"
  using Parse_known_product
    [of sample_ProductMap "\<lparr>VendorID = 1, ProductID = 27, HardwareVersion = 4294967295\<rparr>"]
  by (simp add: sample_ProductMap_def raw_ProductMapKey_def decimal.simps digit_char_def)

text \<open>
  C8: when the key of a raw version is not in the product map, \<open>Parse\<close> returns nil, which
  is no error, and \<open>String\<close> is the three numbers alone; so with no entry for the key
  (0, 0), the string of the version (0, 0, 0) is \<open>(0, 0, 0)\<close>, the constant
  \<open>EmptyHardwareVersion\<close>.
\<close>

theorem Parse_unknown_product:
  "(ProductMap (raw_ProductMapKey raw) = None \<longrightarrow>
      Parse ProductMap raw = None
      \<and> String ProductMap raw =
          ''('' @ decimal (unat (VendorID raw)) @ '', '' @ decimal (unat (ProductID raw))
            @ '', '' @ decimal (unat (HardwareVersion raw)) @ '')'')
   \<and> (ProductMap (ProductMapKey 0 0) = None \<longrightarrow>
      String ProductMap \<lparr>VendorID = 0, ProductID = 0, HardwareVersion = 0\<rparr> = ''(0, 0, 0)''
      \<and> String ProductMap \<lparr>VendorID = 0, ProductID = 0, HardwareVersion = 0\<rparr> = EmptyHardwareVersion)"
  by (simp add: Parse_def String_def raw_ProductMapKey_def EmptyHardwareVersion_def
      decimal.simps digit_char_def)

theorem Parse_unknown_product_witness:
  "sample_ProductMap (ProductMapKey 0 0) = None
   \<and> Parse sample_ProductMap \<lparr>VendorID = 0, ProductID = 0, HardwareVersion = 0\<rparr> = None
   \<and> String sample_ProductMap \<lparr>VendorID = 0, ProductID = 0, HardwareVersion = 0\<rparr> = EmptyHardwareVersion
   \<and> String sample_ProductMap \<lparr>VendorID = 1, ProductID = 99, HardwareVersion = 5\<rparr> = ''(1, 99, 5)''"
  using Parse_unknown_product [of sample_ProductMap "\<lparr>VendorID = 0, ProductID = 0, HardwareVersion = 0\<rparr>"]
    Parse_unknown_product [of sample_ProductMap "\<lparr>VendorID = 1, ProductID = 99, HardwareVersion = 5\<rparr>"]
  by (simp add: sample_ProductMap_def raw_ProductMapKey_def ProductMapKey_def decimal.simps digit_char_def)

text \<open>
  C1: a call invokes \<open>Send\<close> at most once, whatever happens: the read loop only sets the
  deadline and reads. A call that succeeds has invoked it exactly once, before any read.
  Given a context that stays live and a connection whose first \<open>n\<close> reads fail with a
  timeout error and whose next read gives a frame that decodes to a matching
  \<open>StateVersion\<close> response with a valid payload, the call returns success with one
  \<open>Send\<close> and \<open>n + 1\<close> reads.
\<close>

theorem GetHardwareVersion_sends_once:
  "(GetHardwareVersion env d c cn = Some (r, d', tr) \<longrightarrow>
      sends tr \<le> 1
      \<and> (r = None \<longrightarrow> sends tr = 1 \<and> reads (takeWhile (\<lambda>e. \<not> is_Send e) tr) = 0))
   \<and> (\<not> Done c AtEntry \<and> Send env c k = Inr seq
      \<and> (\<forall>j\<le>n. \<not> Done c (LoopTop j) \<and> SetReadDeadline k j = None)
      \<and> (\<forall>j<n. \<exists>b err. Read k j = (b, Some err) \<and> CheckTimeoutError env err)
      \<and> Read k n = (buf, None) \<and> ParseResponse env buf = Inr resp
      \<and> Sequence resp = seq \<and> Source resp = device_Source d \<and> Message resp = StateVersion env
      \<and> binary_Read (Payload resp) = Inr raw
      \<longrightarrow> GetHardwareVersion env d c (Some k) =
            Some (None, d\<lparr>version := Version raw\<rparr>, EvSend (conn_id k) # poll_events k (Suc n))
          \<and> sends (EvSend (conn_id k) # poll_events k (Suc n)) = 1
          \<and> reads (EvSend (conn_id k) # poll_events k (Suc n)) = Suc n)"
proof -
  have general: "GetHardwareVersion env d c cn = Some (r, d', tr) \<longrightarrow>
      sends tr \<le> 1
      \<and> (r = None \<longrightarrow> sends tr = 1 \<and> reads (takeWhile (\<lambda>e. \<not> is_Send e) tr) = 0)"
    using GetHardwareVersion_sends [of env d c cn r d' tr] by simp
  have scenario: "\<not> Done c AtEntry \<and> Send env c k = Inr seq
      \<and> (\<forall>j\<le>n. \<not> Done c (LoopTop j) \<and> SetReadDeadline k j = None)
      \<and> (\<forall>j<n. \<exists>b err. Read k j = (b, Some err) \<and> CheckTimeoutError env err)
      \<and> Read k n = (buf, None) \<and> ParseResponse env buf = Inr resp
      \<and> Sequence resp = seq \<and> Source resp = device_Source d \<and> Message resp = StateVersion env
      \<and> binary_Read (Payload resp) = Inr raw
      \<longrightarrow> GetHardwareVersion env d c (Some k) =
            Some (None, d\<lparr>version := Version raw\<rparr>, EvSend (conn_id k) # poll_events k (Suc n))
          \<and> sends (EvSend (conn_id k) # poll_events k (Suc n)) = 1
          \<and> reads (EvSend (conn_id k) # poll_events k (Suc n)) = Suc n"
  proof
    assume h: "\<not> Done c AtEntry \<and> Send env c k = Inr seq
      \<and> (\<forall>j\<le>n. \<not> Done c (LoopTop j) \<and> SetReadDeadline k j = None)
      \<and> (\<forall>j<n. \<exists>b err. Read k j = (b, Some err) \<and> CheckTimeoutError env err)
      \<and> Read k n = (buf, None) \<and> ParseResponse env buf = Inr resp
      \<and> Sequence resp = seq \<and> Source resp = device_Source d \<and> Message resp = StateVersion env
      \<and> binary_Read (Payload resp) = Inr raw"
    have skips: "\<forall>j<n. \<not> Done c (LoopTop j) \<and> continues env k seq d j"
    proof (intro allI impI)
      fix j assume j: "j < n"
      with h obtain b err where "Read k j = (b, Some err)" "CheckTimeoutError env err"
        by blast
      moreover from h j have "\<not> Done c (LoopTop j)" "SetReadDeadline k j = None"
        by (simp_all add: less_imp_le)
      ultimately show "\<not> Done c (LoopTop j) \<and> continues env k seq d j"
        by (simp add: continues_def)
    qed
    from h have acc: "accepted_at env c k seq d n raw"
      by (simp add: accepted_at_def)
    from h have entry: "\<not> Done c AtEntry" and send: "Send env c k = Inr seq"
      by simp_all
    have run: "GetHardwareVersion env d c (Some k) =
          Some (None, d\<lparr>version := Version raw\<rparr>, EvSend (conn_id k) # poll_events k (Suc n))"
      by (rule GetHardwareVersion_answer_after_skips [OF entry send skips acc])
    have one: "sends (EvSend (conn_id k) # poll_events k (Suc n)) = 1"
      using sends_poll_events [of k "Suc n"] by (simp add: sends_def)
    have many: "reads (EvSend (conn_id k) # poll_events k (Suc n)) = Suc n"
      using reads_poll_events [of k "Suc n"] by (simp add: reads_def)
    from run one many show "GetHardwareVersion env d c (Some k) =
            Some (None, d\<lparr>version := Version raw\<rparr>, EvSend (conn_id k) # poll_events k (Suc n))
          \<and> sends (EvSend (conn_id k) # poll_events k (Suc n)) = 1
          \<and> reads (EvSend (conn_id k) # poll_events k (Suc n)) = Suc n"
      by simp
  qed
  from general scenario show ?thesis by (rule conjI)
qed

theorem GetHardwareVersion_sends_once_witness:
  "GetHardwareVersion (sample_env (Inl EOF)) sample_device live_ctx (Some (sample_conn 2 sample_frame)) =
     Some (None,
           \<lparr>source = 5, version = \<lparr>VendorID = 1, ProductID = 27, HardwareVersion = 2\<rparr>\<rparr>,
           [EvSend 1, EvSetReadDeadline 1, EvRead 1, EvSetReadDeadline 1, EvRead 1,
            EvSetReadDeadline 1, EvRead 1])
   \<and> sends [EvSend 1, EvSetReadDeadline 1, EvRead 1, EvSetReadDeadline 1, EvRead 1,
            EvSetReadDeadline 1, EvRead 1] = 1
   \<and> reads [EvSend 1, EvSetReadDeadline 1, EvRead 1, EvSetReadDeadline 1, EvRead 1,
            EvSetReadDeadline 1, EvRead 1] = 3"
  using GetHardwareVersion_sends_once
    [of "sample_env (Inl EOF)" sample_device live_ctx "Some (sample_conn 2 sample_frame)"
        None "\<lparr>source = 5, version = \<lparr>VendorID = 1, ProductID = 27, HardwareVersion = 2\<rparr>\<rparr>"
        "[EvSend 1, EvSetReadDeadline 1, EvRead 1, EvSetReadDeadline 1, EvRead 1,
            EvSetReadDeadline 1, EvRead 1]"
        "sample_conn 2 sample_frame" 7 2 sample_frame
        "\<lparr>Source = 5, Sequence = 7, Message = 33, Payload = [1, 0, 0, 0, 27, 0, 0, 0, 2, 0, 0, 0]\<rparr>"
        "\<lparr>Version = \<lparr>VendorID = 1, ProductID = 27, HardwareVersion = 2\<rparr>\<rparr>"]
    sample_frame_parses sample_payload_decodes
  by (simp add: sample_env_def sample_conn_def live_ctx_def sample_device_def device_Source_def
      poll_events_def numeral_2_eq_2 sample_timeout_def)

text \<open>
  C2: a call whose context is already done on entry returns the context's error and
  does nothing else: no dial, no send, no deadline, no read. In the read loop, an
  iteration that finds the context done returns the context's error with no further
  event; so a call whose context is found done at the top of iteration \<open>n\<close>, after
  \<open>n\<close> iterations that went on, has made \<open>n\<close> reads and no more.
\<close>

theorem GetHardwareVersion_cancelled:
  "(Done c AtEntry \<longrightarrow> GetHardwareVersion env d c cn = Some (Some (Err c), d, []))
   \<and> (Done c (LoopTop i) \<longrightarrow> read_loop env c k seq i d tr = Some (Some (Err c), d, tr))
   \<and> (\<not> Done c AtEntry \<and> Send env c k = Inr seq
       \<and> (\<forall>j<n. \<not> Done c (LoopTop j) \<and> continues env k seq d j) \<and> Done c (LoopTop n)
      \<longrightarrow> GetHardwareVersion env d c (Some k) =
            Some (Some (Err c), d, EvSend (conn_id k) # poll_events k n)
          \<and> reads (EvSend (conn_id k) # poll_events k n) = n)"
proof -
  have entry: "Done c AtEntry \<longrightarrow> GetHardwareVersion env d c cn = Some (Some (Err c), d, [])"
    by (simp add: GetHardwareVersion_def)
  have loop: "Done c (LoopTop i) \<longrightarrow> read_loop env c k seq i d tr = Some (Some (Err c), d, tr)"
    by (simp add: read_loop_done)
  have call: "\<not> Done c AtEntry \<and> Send env c k = Inr seq
       \<and> (\<forall>j<n. \<not> Done c (LoopTop j) \<and> continues env k seq d j) \<and> Done c (LoopTop n)
      \<longrightarrow> GetHardwareVersion env d c (Some k) =
            Some (Some (Err c), d, EvSend (conn_id k) # poll_events k n)
          \<and> reads (EvSend (conn_id k) # poll_events k n) = n"
    using GetHardwareVersion_cancelled_after_skips [of c env k seq n d] reads_poll_events [of k n]
    by (simp add: reads_def)
  from entry loop call show ?thesis by simp
qed

theorem GetHardwareVersion_cancelled_witness:
  "GetHardwareVersion (sample_env (Inl EOF)) sample_device expired_ctx None =
     Some (Some DeadlineExceeded, sample_device, [])
   \<and> GetHardwareVersion (sample_env (Inl EOF)) sample_device expired_ctx (Some (sample_conn 0 sample_frame)) =
     Some (Some DeadlineExceeded, sample_device, [])
   \<and> read_loop (sample_env (Inl EOF)) (expiring_ctx 2) (sample_conn 5 sample_frame) 7 2 sample_device
        [EvSend 1, EvSetReadDeadline 1, EvRead 1, EvSetReadDeadline 1, EvRead 1] =
     Some (Some DeadlineExceeded, sample_device,
        [EvSend 1, EvSetReadDeadline 1, EvRead 1, EvSetReadDeadline 1, EvRead 1])
   \<and> GetHardwareVersion (sample_env (Inl EOF)) sample_device (expiring_ctx 2) (Some (sample_conn 5 sample_frame)) =
     Some (Some DeadlineExceeded, sample_device,
        [EvSend 1, EvSetReadDeadline 1, EvRead 1, EvSetReadDeadline 1, EvRead 1])"
  using GetHardwareVersion_cancelled
      [of expired_ctx "sample_env (Inl EOF)" sample_device None 0 "sample_conn 0 sample_frame" 7 "[]" 0]
    GetHardwareVersion_cancelled
      [of expired_ctx "sample_env (Inl EOF)" sample_device "Some (sample_conn 0 sample_frame)" 0
          "sample_conn 0 sample_frame" 7 "[]" 0]
    GetHardwareVersion_cancelled
      [of "expiring_ctx 2" "sample_env (Inl EOF)" sample_device None 2 "sample_conn 5 sample_frame" 7
          "[EvSend 1, EvSetReadDeadline 1, EvRead 1, EvSetReadDeadline 1, EvRead 1]" 2]
  by (simp add: expired_ctx_def expiring_ctx_def sample_env_def sample_conn_def continues_def
      poll_events_def numeral_2_eq_2 sample_timeout_def)

text \<open>
  C3: in an iteration of the read loop whose read gives a frame that decodes, the
  response is accepted exactly when its source is the device's, its sequence is the
  request's and its message type is \<open>StateVersion\<close>: then the call returns on this
  response (success, or the error of decoding its payload) and reads no more. Otherwise
  the loop goes on to the next iteration with the device unchanged, no error and no
  \<open>Send\<close>: the iteration has only set the deadline and read. So a connection that
  gives \<open>n\<close> responses that do not match before a matching one leads to success with
  one \<open>Send\<close>.
\<close>

theorem read_loop_accepts_matching_only:
  "(\<not> Done c (LoopTop i) \<and> SetReadDeadline k i = None \<and> Read k i = (buf, None)
      \<and> ParseResponse env buf = Inr resp
     \<longrightarrow> read_loop env c k seq i d tr =
           (if Source resp = device_Source d \<and> Sequence resp = seq \<and> Message resp = StateVersion env
            then (case binary_Read (Payload resp) of
                    Inl err \<Rightarrow> Some (Some err, d, tr @ poll_events k (Suc 0))
                  | Inr raw \<Rightarrow> Some (None, d\<lparr>version := Version raw\<rparr>, tr @ poll_events k (Suc 0)))
            else read_loop env c k seq (Suc i) d (tr @ poll_events k (Suc 0)))
         \<and> sends (poll_events k (Suc 0)) = 0)
   \<and> (\<not> Done c AtEntry \<and> Send env c k = Inr seq
      \<and> (\<forall>j\<le>n. \<not> Done c (LoopTop j) \<and> SetReadDeadline k j = None)
      \<and> (\<forall>j<n. \<exists>b other. Read k j = (b, None) \<and> ParseResponse env b = Inr other
             \<and> (Source other \<noteq> device_Source d \<or> Sequence other \<noteq> seq
                  \<or> Message other \<noteq> StateVersion env))
      \<and> Read k n = (buf, None) \<and> ParseResponse env buf = Inr resp
      \<and> Source resp = device_Source d \<and> Sequence resp = seq \<and> Message resp = StateVersion env
      \<and> binary_Read (Payload resp) = Inr raw
      \<longrightarrow> GetHardwareVersion env d c (Some k) =
            Some (None, d\<lparr>version := Version raw\<rparr>, EvSend (conn_id k) # poll_events k (Suc n)))"
proof -
  have step: "\<not> Done c (LoopTop i) \<and> SetReadDeadline k i = None \<and> Read k i = (buf, None)
      \<and> ParseResponse env buf = Inr resp
     \<longrightarrow> read_loop env c k seq i d tr =
           (if Source resp = device_Source d \<and> Sequence resp = seq \<and> Message resp = StateVersion env
            then (case binary_Read (Payload resp) of
                    Inl err \<Rightarrow> Some (Some err, d, tr @ poll_events k (Suc 0))
                  | Inr raw \<Rightarrow> Some (None, d\<lparr>version := Version raw\<rparr>, tr @ poll_events k (Suc 0)))
            else read_loop env c k seq (Suc i) d (tr @ poll_events k (Suc 0)))
         \<and> sends (poll_events k (Suc 0)) = 0"
    using read_loop_response [of c i k buf env resp seq d tr] sends_poll_events [of k "Suc 0"]
    by simp
  have run: "\<not> Done c AtEntry \<and> Send env c k = Inr seq
      \<and> (\<forall>j\<le>n. \<not> Done c (LoopTop j) \<and> SetReadDeadline k j = None)
      \<and> (\<forall>j<n. \<exists>b other. Read k j = (b, None) \<and> ParseResponse env b = Inr other
             \<and> (Source other \<noteq> device_Source d \<or> Sequence other \<noteq> seq
                  \<or> Message other \<noteq> StateVersion env))
      \<and> Read k n = (buf, None) \<and> ParseResponse env buf = Inr resp
      \<and> Source resp = device_Source d \<and> Sequence resp = seq \<and> Message resp = StateVersion env
      \<and> binary_Read (Payload resp) = Inr raw
      \<longrightarrow> GetHardwareVersion env d c (Some k) =
            Some (None, d\<lparr>version := Version raw\<rparr>, EvSend (conn_id k) # poll_events k (Suc n))"
  proof
    assume h: "\<not> Done c AtEntry \<and> Send env c k = Inr seq
      \<and> (\<forall>j\<le>n. \<not> Done c (LoopTop j) \<and> SetReadDeadline k j = None)
      \<and> (\<forall>j<n. \<exists>b other. Read k j = (b, None) \<and> ParseResponse env b = Inr other
             \<and> (Source other \<noteq> device_Source d \<or> Sequence other \<noteq> seq
                  \<or> Message other \<noteq> StateVersion env))
      \<and> Read k n = (buf, None) \<and> ParseResponse env buf = Inr resp
      \<and> Source resp = device_Source d \<and> Sequence resp = seq \<and> Message resp = StateVersion env
      \<and> binary_Read (Payload resp) = Inr raw"
    have skips: "\<forall>j<n. \<not> Done c (LoopTop j) \<and> continues env k seq d j"
    proof (intro allI impI)
      fix j assume j: "j < n"
      with h obtain b other where "Read k j = (b, None)" "ParseResponse env b = Inr other"
        "Source other \<noteq> device_Source d \<or> Sequence other \<noteq> seq \<or> Message other \<noteq> StateVersion env"
        by blast
      moreover from h j have "\<not> Done c (LoopTop j)" "SetReadDeadline k j = None"
        by (simp_all add: less_imp_le)
      ultimately show "\<not> Done c (LoopTop j) \<and> continues env k seq d j"
        by (auto simp: continues_def)
    qed
    from h have acc: "accepted_at env c k seq d n raw"
      by (simp add: accepted_at_def)
    from h have entry: "\<not> Done c AtEntry" and send: "Send env c k = Inr seq"
      by simp_all
    show "GetHardwareVersion env d c (Some k) =
            Some (None, d\<lparr>version := Version raw\<rparr>, EvSend (conn_id k) # poll_events k (Suc n))"
      by (rule GetHardwareVersion_answer_after_skips [OF entry send skips acc])
  qed
  from step run show ?thesis by (rule conjI)
qed

theorem read_loop_accepts_matching_only_witness:
  "read_loop (sample_env (Inl EOF)) live_ctx (scripted_conn [([6, 7, 33, 9], None)]) 7 0 sample_device [EvSend 2] =
     read_loop (sample_env (Inl EOF)) live_ctx (scripted_conn [([6, 7, 33, 9], None)]) 7 1 sample_device
       [EvSend 2, EvSetReadDeadline 2, EvRead 2]
   \<and> GetHardwareVersion (sample_env (Inl EOF)) sample_device live_ctx
       (Some (scripted_conn [([6, 7, 33, 9], None), ([5, 8, 33, 9], None), ([5, 7, 45, 9], None),
                             (sample_frame, None)])) =
     Some (None,
           \<lparr>source = 5, version = \<lparr>VendorID = 1, ProductID = 27, HardwareVersion = 2\<rparr>\<rparr>,
           [EvSend 2, EvSetReadDeadline 2, EvRead 2, EvSetReadDeadline 2, EvRead 2,
            EvSetReadDeadline 2, EvRead 2, EvSetReadDeadline 2, EvRead 2])"
proof -
  let ?k = "scripted_conn [([6, 7, 33, 9], None), ([5, 8, 33, 9], None), ([5, 7, 45, 9], None),
                            (sample_frame, None)]"
  have others: "\<forall>j<3. \<exists>b other. Read ?k j = (b, None) \<and> sample_ParseResponse b = Inr other
      \<and> (Source other \<noteq> 5 \<or> Sequence other \<noteq> 7 \<or> Message other \<noteq> 33)"
    by (simp add: scripted_conn_def sample_ParseResponse_def numeral_3_eq_3 less_Suc_eq)
  have last: "Read ?k 3 = (sample_frame, None)"
    by (simp add: scripted_conn_def)
  show ?thesis
    using read_loop_accepts_matching_only
        [of live_ctx 0 "scripted_conn [([6, 7, 33, 9], None)]" "[6, 7, 33, 9]" "sample_env (Inl EOF)"
            "\<lparr>Source = 6, Sequence = 7, Message = 33, Payload = [9]\<rparr>" 7 sample_device "[EvSend 2]"
            3 "\<lparr>Version = \<lparr>VendorID = 1, ProductID = 27, HardwareVersion = 2\<rparr>\<rparr>"]
      read_loop_accepts_matching_only
        [of live_ctx 0 ?k "sample_frame" "sample_env (Inl EOF)"
            "\<lparr>Source = 5, Sequence = 7, Message = 33, Payload = [1, 0, 0, 0, 27, 0, 0, 0, 2, 0, 0, 0]\<rparr>"
            7 sample_device "[]"
            3 "\<lparr>Version = \<lparr>VendorID = 1, ProductID = 27, HardwareVersion = 2\<rparr>\<rparr>"]
      others last sample_frame_parses sample_payload_decodes
    by (simp add: sample_env_def live_ctx_def sample_device_def device_Source_def
        poll_events_def numeral_3_eq_3 scripted_conn_def sample_ParseResponse_def)
qed

text \<open>
  C4, as the code has it: \<open>HardwareVersion\<close> never returns nil. It returns a pointer to
  the raw version the device stores, whether or not a version query has succeeded; on a
  device on which none has, that is the version the device was created with (all zero
  for a zero-valued device), and a query that fails leaves it as it was.
\<close>

theorem HardwareVersion_never_nil:
  "device_HardwareVersion d \<noteq> None
   \<and> device_HardwareVersion d = Some (version d)
   \<and> (GetHardwareVersion env d c cn = Some (Some err, d', tr)
        \<longrightarrow> device_HardwareVersion d' = device_HardwareVersion d)"
  using GetHardwareVersion_error_keeps_device [of env d c cn err d' tr]
  by (auto simp: device_HardwareVersion_def)

theorem HardwareVersion_never_nil_witness:
  "GetHardwareVersion (sample_env (Inl EOF)) sample_device expired_ctx None =
     Some (Some DeadlineExceeded, sample_device, [])
   \<and> device_HardwareVersion sample_device =
       Some \<lparr>VendorID = 0, ProductID = 0, HardwareVersion = 0\<rparr>"
  using HardwareVersion_never_nil
    [of sample_device "sample_env (Inl EOF)" expired_ctx None DeadlineExceeded sample_device "[]"]
  by (simp add: GetHardwareVersion_def expired_ctx_def sample_device_def)

text \<open>
  The claim C4 as the spec states it fails on a device on which no query has run: the
  pointer returned is not nil, it points to the zero version.
\<close>

theorem HardwareVersion_unresolved_not_nil:
  "device_HardwareVersion \<lparr>source = 0, version = \<lparr>VendorID = 0, ProductID = 0, HardwareVersion = 0\<rparr>\<rparr>
     = Some \<lparr>VendorID = 0, ProductID = 0, HardwareVersion = 0\<rparr>
   \<and> device_HardwareVersion \<lparr>source = 0, version = \<lparr>VendorID = 0, ProductID = 0, HardwareVersion = 0\<rparr>\<rparr>
     \<noteq> None"
  by (simp add: device_HardwareVersion_def)

text \<open>
  C5: a call that returns an error leaves the device as it was, so its stored version
  too; this holds for a frame that does not decode and for a matching response whose
  payload is shorter than 12 bytes. A call that succeeds stores the version decoded
  from the payload of a response it read and accepted: all three fields come from that
  payload's first 12 bytes, and nothing else of the device changes.
\<close>

theorem GetHardwareVersion_version_update:
  "(GetHardwareVersion env d c cn = Some (Some err, d', tr) \<longrightarrow> d' = d)
   \<and> (GetHardwareVersion env d c cn = Some (None, d', tr) \<longrightarrow>
        (\<exists>k seq j buf resp raw.
            (cn = Some k \<or> cn = None \<and> Dial env = Inr k) \<and> Send env c k = Inr seq
            \<and> Read k j = (buf, None) \<and> ParseResponse env buf = Inr resp
            \<and> Sequence resp = seq \<and> Source resp = device_Source d
            \<and> Message resp = StateVersion env
            \<and> binary_Read (Payload resp) = Inr raw
            \<and> 12 \<le> length (Payload resp)
            \<and> d' = d\<lparr>version :=
                       \<lparr>VendorID = le_uint32 (take 4 (Payload resp)),
                        ProductID = le_uint32 (take 4 (drop 4 (Payload resp))),
                        HardwareVersion = le_uint32 (take 4 (drop 8 (Payload resp)))\<rparr>\<rparr>))
   \<and> (\<not> Done c (LoopTop i) \<and> SetReadDeadline k i = None \<and> Read k i = (buf, None)
        \<and> ParseResponse env buf = Inl perr
       \<longrightarrow> read_loop env c k seq i d tr0 = Some (Some perr, d, tr0 @ poll_events k (Suc 0)))
   \<and> (\<not> Done c (LoopTop i) \<and> SetReadDeadline k i = None \<and> Read k i = (buf, None)
        \<and> ParseResponse env buf = Inr resp
        \<and> Sequence resp = seq \<and> Source resp = device_Source d \<and> Message resp = StateVersion env
        \<and> length (Payload resp) < 12
       \<longrightarrow> read_loop env c k seq i d tr0 =
             Some (Some (if Payload resp = [] then EOF else ErrUnexpectedEOF), d,
                   tr0 @ poll_events k (Suc 0)))"
proof -
  have failed: "GetHardwareVersion env d c cn = Some (Some err, d', tr) \<longrightarrow> d' = d"
    using GetHardwareVersion_error_keeps_device [of env d c cn err d' tr] by simp
  have stored: "GetHardwareVersion env d c cn = Some (None, d', tr) \<longrightarrow>
        (\<exists>k seq j buf resp raw.
            (cn = Some k \<or> cn = None \<and> Dial env = Inr k) \<and> Send env c k = Inr seq
            \<and> Read k j = (buf, None) \<and> ParseResponse env buf = Inr resp
            \<and> Sequence resp = seq \<and> Source resp = device_Source d
            \<and> Message resp = StateVersion env
            \<and> binary_Read (Payload resp) = Inr raw
            \<and> 12 \<le> length (Payload resp)
            \<and> d' = d\<lparr>version :=
                       \<lparr>VendorID = le_uint32 (take 4 (Payload resp)),
                        ProductID = le_uint32 (take 4 (drop 4 (Payload resp))),
                        HardwareVersion = le_uint32 (take 4 (drop 8 (Payload resp)))\<rparr>\<rparr>)"
  proof
    assume "GetHardwareVersion env d c cn = Some (None, d', tr)"
    from GetHardwareVersion_success [OF this] obtain k seq j raw where k:
      "cn = Some k \<or> cn = None \<and> Dial env = Inr k" "Send env c k = Inr seq"
      "accepted_at env c k seq d j raw" "d' = d\<lparr>version := Version raw\<rparr>"
      by blast
    from k(3) obtain buf resp where r:
      "Read k j = (buf, None)" "ParseResponse env buf = Inr resp" "Sequence resp = seq"
      "Source resp = device_Source d" "Message resp = StateVersion env"
      "binary_Read (Payload resp) = Inr raw"
      by (auto simp: accepted_at_iff)
    from binary_Read_Inr [OF r(6)] k(4) have
      "12 \<le> length (Payload resp)"
      "d' = d\<lparr>version :=
                 \<lparr>VendorID = le_uint32 (take 4 (Payload resp)),
                  ProductID = le_uint32 (take 4 (drop 4 (Payload resp))),
                  HardwareVersion = le_uint32 (take 4 (drop 8 (Payload resp)))\<rparr>\<rparr>"
      by simp_all
    with k(1,2) r show "\<exists>k seq j buf resp raw.
            (cn = Some k \<or> cn = None \<and> Dial env = Inr k) \<and> Send env c k = Inr seq
            \<and> Read k j = (buf, None) \<and> ParseResponse env buf = Inr resp
            \<and> Sequence resp = seq \<and> Source resp = device_Source d
            \<and> Message resp = StateVersion env
            \<and> binary_Read (Payload resp) = Inr raw
            \<and> 12 \<le> length (Payload resp)
            \<and> d' = d\<lparr>version :=
                       \<lparr>VendorID = le_uint32 (take 4 (Payload resp)),
                        ProductID = le_uint32 (take 4 (drop 4 (Payload resp))),
                        HardwareVersion = le_uint32 (take 4 (drop 8 (Payload resp)))\<rparr>\<rparr>"
      by blast
  qed
  have frame: "\<not> Done c (LoopTop i) \<and> SetReadDeadline k i = None \<and> Read k i = (buf, None)
        \<and> ParseResponse env buf = Inl perr
       \<longrightarrow> read_loop env c k seq i d tr0 = Some (Some perr, d, tr0 @ poll_events k (Suc 0))"
    using read_loop_parse_error [of c i k buf env perr seq d tr0] by simp
  have short: "\<not> Done c (LoopTop i) \<and> SetReadDeadline k i = None \<and> Read k i = (buf, None)
        \<and> ParseResponse env buf = Inr resp
        \<and> Sequence resp = seq \<and> Source resp = device_Source d \<and> Message resp = StateVersion env
        \<and> length (Payload resp) < 12
       \<longrightarrow> read_loop env c k seq i d tr0 =
             Some (Some (if Payload resp = [] then EOF else ErrUnexpectedEOF), d,
                   tr0 @ poll_events k (Suc 0))"
    using read_loop_response [of c i k buf env resp seq d tr0] binary_Read_short [of "Payload resp"]
    by simp
  from failed stored frame short show ?thesis by (intro conjI)
qed

theorem GetHardwareVersion_version_update_witness:
  "GetHardwareVersion (sample_env (Inl EOF)) sample_device live_ctx
       (Some (scripted_conn [([5, 7, 33, 1, 0], None)])) =
     Some (Some ErrUnexpectedEOF, sample_device, [EvSend 2, EvSetReadDeadline 2, EvRead 2])
   \<and> GetHardwareVersion (sample_env (Inl EOF)) sample_device live_ctx
       (Some (scripted_conn [([5, 7], None)])) =
     Some (Some (OtherError ''short frame''), sample_device,
           [EvSend 2, EvSetReadDeadline 2, EvRead 2])
   \<and> GetHardwareVersion (sample_env (Inl EOF)) sample_device live_ctx (Some (sample_conn 2 sample_frame)) =
     Some (None,
           sample_device\<lparr>version := \<lparr>VendorID = 1, ProductID = 27, HardwareVersion = 2\<rparr>\<rparr>,
           [EvSend 1, EvSetReadDeadline 1, EvRead 1, EvSetReadDeadline 1, EvRead 1,
            EvSetReadDeadline 1, EvRead 1])"
  using sample_short_payload_run [of "Inl EOF"] sample_bad_frame_run [of "Inl EOF"]
    sample_success_run [of "Inl EOF"]
    GetHardwareVersion_version_update
      [of "sample_env (Inl EOF)" sample_device live_ctx "Some (scripted_conn [([5, 7, 33, 1, 0], None)])"
          ErrUnexpectedEOF sample_device "[EvSend 2, EvSetReadDeadline 2, EvRead 2]"
          0 "scripted_conn [([5, 7, 33, 1, 0], None)]" "[5, 7, 33, 1, 0]" "OtherError ''short frame''"
          7 "[EvSend 2]" "\<lparr>Source = 5, Sequence = 7, Message = 33, Payload = [1, 0]\<rparr>"]
  by (simp add: sample_device_def)

text \<open>
  C10, as the code has it: a call with a nil connection whose context is not done on
  entry dials through the device's \<open>Dial\<close>. When the dial fails, the call returns the
  dial's error and has sent nothing. When it succeeds, every later event of the call is
  on the dialled connection and the last one closes it; the exchange is the one the call
  makes when it is given that connection, unless the context is found done right after
  the dial, in which case the call returns the context's error having sent nothing.
\<close>

theorem GetHardwareVersion_nil_conn:
  "\<not> Done c AtEntry \<longrightarrow>
     (Dial env = Inl err \<longrightarrow> GetHardwareVersion env d c None = Some (Some err, d, [EvDial]))
   \<and> (Dial env = Inr k \<and> Done c AfterDial \<longrightarrow>
        GetHardwareVersion env d c None = Some (Some (Err c), d, [EvDial, EvClose (conn_id k)]))
   \<and> (Dial env = Inr k \<and> \<not> Done c AfterDial \<longrightarrow>
        GetHardwareVersion env d c None =
          map_option (\<lambda>(r, d', tr). (r, d', EvDial # tr @ [EvClose (conn_id k)]))
            (GetHardwareVersion env d c (Some k)))
   \<and> (Dial env = Inr k \<and> GetHardwareVersion env d c None = Some (r, d', tr) \<longrightarrow>
        hd tr = EvDial \<and> last tr = EvClose (conn_id k)
        \<and> set tr \<subseteq> {EvDial, EvSend (conn_id k), EvSetReadDeadline (conn_id k),
                        EvRead (conn_id k), EvClose (conn_id k)})"
proof
  assume entry: "\<not> Done c AtEntry"
  have failed: "Dial env = Inl err \<longrightarrow> GetHardwareVersion env d c None = Some (Some err, d, [EvDial])"
    using entry by (simp add: GetHardwareVersion_def)
  have late: "Dial env = Inr k \<and> Done c AfterDial \<longrightarrow>
        GetHardwareVersion env d c None = Some (Some (Err c), d, [EvDial, EvClose (conn_id k)])"
    using entry by (simp add: GetHardwareVersion_def)
  have same: "Dial env = Inr k \<and> \<not> Done c AfterDial \<longrightarrow>
        GetHardwareVersion env d c None =
          map_option (\<lambda>(r, d', tr). (r, d', EvDial # tr @ [EvClose (conn_id k)]))
            (GetHardwareVersion env d c (Some k))"
    using GetHardwareVersion_dialled [OF entry, of env k d] by simp
  have shape: "Dial env = Inr k \<and> GetHardwareVersion env d c None = Some (r, d', tr) \<longrightarrow>
        hd tr = EvDial \<and> last tr = EvClose (conn_id k)
        \<and> set tr \<subseteq> {EvDial, EvSend (conn_id k), EvSetReadDeadline (conn_id k),
                        EvRead (conn_id k), EvClose (conn_id k)}"
    using GetHardwareVersion_dialled_trace [of env k d c r d' tr] entry by simp
  from failed late same shape
  show "(Dial env = Inl err \<longrightarrow> GetHardwareVersion env d c None = Some (Some err, d, [EvDial]))
   \<and> (Dial env = Inr k \<and> Done c AfterDial \<longrightarrow>
        GetHardwareVersion env d c None = Some (Some (Err c), d, [EvDial, EvClose (conn_id k)]))
   \<and> (Dial env = Inr k \<and> \<not> Done c AfterDial \<longrightarrow>
        GetHardwareVersion env d c None =
          map_option (\<lambda>(r, d', tr). (r, d', EvDial # tr @ [EvClose (conn_id k)]))
            (GetHardwareVersion env d c (Some k)))
   \<and> (Dial env = Inr k \<and> GetHardwareVersion env d c None = Some (r, d', tr) \<longrightarrow>
        hd tr = EvDial \<and> last tr = EvClose (conn_id k)
        \<and> set tr \<subseteq> {EvDial, EvSend (conn_id k), EvSetReadDeadline (conn_id k),
                        EvRead (conn_id k), EvClose (conn_id k)})"
    by (intro conjI)
qed

theorem GetHardwareVersion_nil_conn_witness:
  "GetHardwareVersion (sample_env (Inl (OtherError ''no route to host''))) sample_device live_ctx None =
     Some (Some (OtherError ''no route to host''), sample_device, [EvDial])
   \<and> GetHardwareVersion (sample_env (Inr (sample_conn 2 sample_frame))) sample_device live_ctx None =
     Some (None,
           \<lparr>source = 5, version = \<lparr>VendorID = 1, ProductID = 27, HardwareVersion = 2\<rparr>\<rparr>,
           [EvDial, EvSend 1, EvSetReadDeadline 1, EvRead 1, EvSetReadDeadline 1, EvRead 1,
            EvSetReadDeadline 1, EvRead 1, EvClose 1])"
  using GetHardwareVersion_nil_conn
      [of live_ctx "sample_env (Inl (OtherError ''no route to host''))" "OtherError ''no route to host''"
          sample_device "sample_conn 2 sample_frame" None sample_device "[]"]
    GetHardwareVersion_nil_conn
      [of live_ctx "sample_env (Inr (sample_conn 2 sample_frame))" EOF
          sample_device "sample_conn 2 sample_frame" None sample_device "[]"]
    sample_success_run [of "Inr (sample_conn 2 sample_frame)"]
  by (simp add: live_ctx_def sample_env_def sample_conn_def)

text \<open>
  The claim C10 as the spec states it fails on a call whose context is done: with a nil
  connection and a context done on entry the call does not dial, and with a context
  found done right after the dial it closes the connection without any exchange.
\<close>

theorem GetHardwareVersion_nil_conn_done_ctx:
  "GetHardwareVersion (sample_env (Inr (sample_conn 0 sample_frame))) sample_device expired_ctx None =
     Some (Some DeadlineExceeded, sample_device, [])
   \<and> GetHardwareVersion (sample_env (Inr (sample_conn 0 sample_frame))) sample_device
       \<lparr>Done = (\<lambda>p. p \<noteq> AtEntry), Err = Canceled\<rparr> None =
     Some (Some Canceled, sample_device, [EvDial, EvClose 1])"
  by (simp add: GetHardwareVersion_def expired_ctx_def sample_env_def sample_conn_def)

end
